theory Spec2Isabelle
  imports Complex_Main "HOL-Library.Word" "HOL-Library.Multiset"
begin

section \<open>Data model (internal/rockets/model.go)\<close>

text \<open>
  A channel is a \<open>uuid.UUID\<close>, sixteen bytes. Go's \<open>int\<close> is the 64-bit signed
  integer of the platforms the service is built for: sums wrap around, comparisons read
  the word as two's complement (\<open>sint\<close>, \<open><s\<close>). A \<open>time.Time\<close> is kept as an
  opaque integer count; the service only copies it.
\<close>

type_synonym uuid = "128 word"
type_synonym go_int = "64 word"
type_synonym time = int

text \<open>
  The payload is a \<open>map[string]interface{}\<close> decoded from JSON: every number is a
  \<open>float64\<close>. The JSON decoder rejects literals outside the range of \<open>float64\<close>, so
  the number that reaches the service is finite; it is kept as the rational it denotes.
\<close>

type_synonym float64 = rat

datatype jvalue =
    JNull
  | JBool bool
  | JNumber float64
  | JString string
  | JArray "jvalue list"
  | JObject "(string \<times> jvalue) list"

record metadata =
  Channel :: uuid
  MessageNumber :: go_int
  MessageTime :: time
  MessageType :: string

record message =
  Metadata :: metadata
  Message :: "string \<Rightarrow> jvalue option"

text \<open>The field \<open>Channel\<close> of \<open>Rocket\<close> is \<open>RChannel\<close> here: the name is taken by
  the field of \<open>Metadata\<close>.\<close>

record rocket =
  RChannel :: uuid
  Type :: string
  Speed :: go_int
  Mission :: string
  Status :: string
  ExplosionReason :: "string option"
  LastMessageNumber :: "go_int option"
  LastMessageTime :: "time option"

text \<open>
  Go errors. \<open>ErrorsNew s\<close> is \<open>errors.New(s)\<close> for a literal of the source; the three
  named constants are string constants of the package; \<open>ErrNoDocuments\<close> is the driver's
  answer to a \<open>FindOne\<close> that matches nothing and \<open>DriverError\<close> any other failure of
  a driver call.
\<close>

datatype error =
    ErrorsNew string
  | StoreMessageError
  | ProcessMessageError
  | UpdateRocketError
  | ErrNoDocuments
  | DriverError

section \<open>State transition function (internal/rockets/service.go, applyMessage)\<close>

text \<open>The two-valued type assertions \<open>v, ok := m[k].(string)\<close> and \<open>.(float64)\<close>:
  a missing key is the nil interface, and a failed assertion gives the zero value.\<close>

fun assertString :: "jvalue option \<Rightarrow> string \<times> bool" where
  "assertString (Some (JString s)) = (s, True)"
| "assertString _ = ([], False)"

fun assertFloat64 :: "jvalue option \<Rightarrow> float64 \<times> bool" where
  "assertFloat64 (Some (JNumber x)) = (x, True)"
| "assertFloat64 _ = (0, False)"

text \<open>
  The conversion \<open>int(x)\<close> of a \<open>float64\<close> discards the fraction (towards zero).
  Outside the range of \<open>int\<close> the language leaves the result to the implementation;
  the value written here is the one amd64 produces.
\<close>

definition truncToZero :: "float64 \<Rightarrow> int" where
  "truncToZero x = (if 0 \<le> x then \<lfloor>x\<rfloor> else \<lceil>x\<rceil>)"

definition toInt :: "float64 \<Rightarrow> go_int" where
  "toInt x =
     (if - (2 ^ 63) \<le> truncToZero x \<and> truncToZero x < 2 ^ 63 then word_of_int (truncToZero x)
      else word_of_int (- (2 ^ 63)))"

text \<open>
  \<open>applyMessage\<close> works on a pointer: the rocket it leaves behind is returned together
  with the error, since the cursor is written before the switch also when the switch
  fails.
\<close>

definition applyMessage :: "rocket \<Rightarrow> message \<Rightarrow> error option \<times> rocket" where
  "applyMessage rocket0 msg =
     (let rocket = rocket0\<lparr>LastMessageNumber := Some (MessageNumber (Metadata msg)),
                           LastMessageTime := Some (MessageTime (Metadata msg))\<rparr>;
          kind = MessageType (Metadata msg)
      in
        if kind = ''RocketLaunched'' then
          (None, rocket\<lparr>Type := fst (assertString (Message msg ''type'')),
                         Speed := toInt (fst (assertFloat64 (Message msg ''launchSpeed''))),
                         Mission := fst (assertString (Message msg ''mission'')),
                         Status := ''active''\<rparr>)
        else if kind = ''RocketSpeedIncreased'' then
          (case assertFloat64 (Message msg ''by'') of
             (by, ok) \<Rightarrow>
               if ok then (None, rocket\<lparr>Speed := Speed rocket + toInt by\<rparr>)
               else (Some (ErrorsNew ''invalid RocketSpeedIncreased message''), rocket))
        else if kind = ''RocketSpeedDecreased'' then
          (case assertFloat64 (Message msg ''by'') of
             (by, ok) \<Rightarrow>
               if ok then (None, rocket\<lparr>Speed := Speed rocket - toInt by\<rparr>)
               else (Some (ErrorsNew ''invalid RocketSpeedDecreased message''), rocket))
        else if kind = ''RocketExploded'' then
          (None, rocket\<lparr>ExplosionReason := Some (fst (assertString (Message msg ''reason''))),
                         Status := ''exploded''\<rparr>)
        else if kind = ''RocketMissionChanged'' then
          (case assertString (Message msg ''newMission'') of
             (newMission, ok) \<Rightarrow>
               if ok then (None, rocket\<lparr>Mission := newMission\<rparr>)
               else (Some (ErrorsNew ''invalid RocketMissionChanged message''), rocket))
        else (Some (ErrorsNew ''unknown message type''), rocket))"

section \<open>Rebuilding a rocket (buildRocketState)\<close>

fun applyEach :: "rocket \<Rightarrow> message list \<Rightarrow> error + rocket" where
  "applyEach rocket [] = Inr rocket"
| "applyEach rocket (msg # msgs) =
     (case applyMessage rocket msg of
        (Some err, _) \<Rightarrow> Inl err
      | (None, rocket') \<Rightarrow> applyEach rocket' msgs)"

definition newRocket :: "uuid \<Rightarrow> rocket" where
  "newRocket channelID =
     \<lparr>RChannel = channelID, Type = [], Speed = 0, Mission = [], Status = ''active'',
      ExplosionReason = None, LastMessageNumber = None, LastMessageTime = None\<rparr>"

definition buildRocketState :: "uuid \<Rightarrow> message list \<Rightarrow> error + rocket" where
  "buildRocketState channelID msgs = applyEach (newRocket channelID) msgs"

section \<open>The two stores (internal/rockets/repository.go)\<close>

text \<open>
  The database holds the collection \<open>messages\<close>, in insertion order, and the collection
  \<open>rockets\<close>, which is only written by an upsert filtered on the channel and therefore
  holds at most one document for each channel. A document comes back as it was stored.
  Each call of the driver may fail; which calls fail during one request is an input.
\<close>

record db =
  messages :: "message list"
  rockets :: "uuid \<Rightarrow> rocket option"

record faults =
  insertOneFails :: bool
  findOneFails :: bool
  findFails :: bool
  updateOneFails :: bool

definition noFaults :: faults where
  "noFaults = \<lparr>insertOneFails = False, findOneFails = False, findFails = False,
               updateOneFails = False\<rparr>"

definition emptyDb :: db where
  "emptyDb = \<lparr>messages = [], rockets = (\<lambda>_. None)\<rparr>"

definition Store :: "faults \<Rightarrow> db \<Rightarrow> message \<Rightarrow> error option \<times> db" where
  "Store f d msg =
     (if insertOneFails f then (Some StoreMessageError, d)
      else (None, d\<lparr>messages := messages d @ [msg]\<rparr>))"

text \<open>
  The sequence number as the signed integer it is. \<open>FindAfterNumber\<close> asks for the
  rows of the channel with a greater number, sorted by number ascending. Among rows with
  the same number the database promises no order; here they come in insertion order, and
  no general property below relies on that.
\<close>

definition number :: "message \<Rightarrow> int" where
  "number msg = sint (MessageNumber (Metadata msg))"

definition FindAfterNumber :: "faults \<Rightarrow> db \<Rightarrow> uuid \<Rightarrow> go_int \<Rightarrow> error + message list" where
  "FindAfterNumber f d channel n =
     (if findFails f then Inl DriverError
      else Inr (sort_key number
             (filter (\<lambda>msg. Channel (Metadata msg) = channel \<and> sint n < number msg)
                (messages d))))"

definition FindByChannel :: "faults \<Rightarrow> db \<Rightarrow> uuid \<Rightarrow> error + rocket" where
  "FindByChannel f d channel =
     (if findOneFails f then Inl DriverError
      else case rockets d channel of
             None \<Rightarrow> Inl ErrNoDocuments
           | Some rocket \<Rightarrow> Inr rocket)"

definition Upsert :: "faults \<Rightarrow> db \<Rightarrow> rocket \<Rightarrow> error option \<times> db" where
  "Upsert f d rocket =
     (if updateOneFails f then (Some UpdateRocketError, d)
      else (None, d\<lparr>rockets := (rockets d)(RChannel rocket := Some rocket)\<rparr>))"

section \<open>The resequencer (internal/rockets/service.go, Process and Ingest)\<close>

text \<open>
  What a call does: \<open>Ok\<close> is \<open>return nil\<close>, \<open>Err e\<close> is \<open>return e\<close>, and
  \<open>Panic\<close> is the run-time panic of dereferencing a nil \<open>LastMessageNumber\<close>.
\<close>

datatype ret = Ok | Err error | Panic

datatype 'a outcome = Returns 'a | Panics

text \<open>The loop over the messages after the cursor. It leaves \<open>Process\<close> with
  \<open>ProcessMessageError\<close> when a message does not apply.\<close>

fun foldMessages :: "rocket \<Rightarrow> message list \<Rightarrow> (error + rocket) outcome" where
  "foldMessages rocket [] = Returns (Inr rocket)"
| "foldMessages rocket (msg # msgs) =
     (case LastMessageNumber rocket of
        None \<Rightarrow> Panics
      | Some cursor \<Rightarrow>
          if MessageNumber (Metadata msg) = cursor + 1 then
            (case applyMessage rocket msg of
               (Some err, _) \<Rightarrow> Returns (Inl ProcessMessageError)
             | (None, rocket') \<Rightarrow> foldMessages rocket' msgs)
          else Returns (Inr rocket))"

text \<open>The first part of \<open>Process\<close>: the rocket in hand, if any. An error of
  \<open>FindByChannel\<close> is logged and the nil rocket it comes with is used.\<close>

definition rocketInHand :: "faults \<Rightarrow> message \<Rightarrow> db \<Rightarrow> error + rocket option" where
  "rocketInHand f message d =
     (if MessageNumber (Metadata message) = 1 then
        (case buildRocketState (Channel (Metadata message)) [message] of
           Inl err \<Rightarrow> Inl ProcessMessageError
         | Inr rocket \<Rightarrow> Inr (Some rocket))
      else
        (case FindByChannel f d (Channel (Metadata message)) of
           Inl err \<Rightarrow> Inr None
         | Inr rocket \<Rightarrow> Inr (Some rocket)))"

definition Process :: "faults \<Rightarrow> message \<Rightarrow> db \<Rightarrow> ret \<times> db" where
  "Process f message d =
     (case rocketInHand f message d of
        Inl err \<Rightarrow> (Err err, d)
      | Inr None \<Rightarrow> (Ok, d)
      | Inr (Some rocket) \<Rightarrow>
          (case LastMessageNumber rocket of
             None \<Rightarrow> (Panic, d)
           | Some cursor \<Rightarrow>
               (case FindAfterNumber f d (Channel (Metadata message)) cursor of
                  Inl err \<Rightarrow> (Err ProcessMessageError, d)
                | Inr msgs \<Rightarrow>
                    (case foldMessages rocket msgs of
                       Panics \<Rightarrow> (Panic, d)
                     | Returns (Inl err) \<Rightarrow> (Err err, d)
                     | Returns (Inr rocket') \<Rightarrow>
                         (case Upsert f d rocket' of
                            (Some err, d') \<Rightarrow> (Err ProcessMessageError, d')
                          | (None, d') \<Rightarrow> (Ok, d'))))))"

definition Ingest :: "faults \<Rightarrow> message \<Rightarrow> db \<Rightarrow> ret \<times> db" where
  "Ingest f message d =
     (case Store f d message of
        (Some err, d') \<Rightarrow> (Err err, d')
      | (None, d') \<Rightarrow> Process f message d')"

text \<open>A sequence of requests, served one after the other, each with its own driver
  failures; the results of the calls are collected.\<close>

fun ingestAll :: "(faults \<times> message) list \<Rightarrow> db \<Rightarrow> ret list \<times> db" where
  "ingestAll [] d = ([], d)"
| "ingestAll ((f, message) # rest) d =
     (case Ingest f message d of
        (r, d') \<Rightarrow> (case ingestAll rest d' of (rs, d'') \<Rightarrow> (r # rs, d'')))"

section \<open>Concrete messages and rockets\<close>

text \<open>The five kinds of the switch in \<open>applyMessage\<close>.\<close>

definition knownKinds :: "string list" where
  "knownKinds = [''RocketLaunched'', ''RocketSpeedIncreased'', ''RocketSpeedDecreased'',
                 ''RocketExploded'', ''RocketMissionChanged'']"

text \<open>A request body, decoded: the metadata and the payload object.\<close>

definition mkMessage ::
  "uuid \<Rightarrow> go_int \<Rightarrow> time \<Rightarrow> string \<Rightarrow> (string \<times> jvalue) list \<Rightarrow> message" where
  "mkMessage channel n t kind kvs =
     \<lparr>Metadata = \<lparr>Channel = channel, MessageNumber = n, MessageTime = t, MessageType = kind\<rparr>,
      Message = map_of kvs\<rparr>"

definition exLaunched :: "go_int \<Rightarrow> message" where
  "exLaunched n = mkMessage 7 n 1000 ''RocketLaunched''
     [(''type'', JString ''Falcon-9''), (''launchSpeed'', JNumber 500),
      (''mission'', JString ''ARTEMIS'')]"

definition exIncreased :: "go_int \<Rightarrow> message" where
  "exIncreased n = mkMessage 7 n 2000 ''RocketSpeedIncreased'' [(''by'', JNumber 3000)]"

definition exDecreased :: "go_int \<Rightarrow> message" where
  "exDecreased n = mkMessage 7 n 3000 ''RocketSpeedDecreased'' [(''by'', JNumber 3000)]"

definition exExploded :: "go_int \<Rightarrow> message" where
  "exExploded n = mkMessage 7 n 4000 ''RocketExploded''
     [(''reason'', JString ''PRESSURE_VESSEL_FAILURE'')]"

definition exUnknown :: "go_int \<Rightarrow> message" where
  "exUnknown n = mkMessage 7 n 5000 ''RocketLanded'' []"

definition exRocket :: rocket where
  "exRocket = \<lparr>RChannel = 7, Type = ''Falcon-9'', Speed = 500, Mission = ''ARTEMIS'',
     Status = ''active'', ExplosionReason = None, LastMessageNumber = Some 1,
     LastMessageTime = Some 1000\<rparr>"

definition exExplodedRocket :: rocket where
  "exExplodedRocket = exRocket\<lparr>ExplosionReason := Some ''PRESSURE_VESSEL_FAILURE'',
     Status := ''exploded''\<rparr>"

section \<open>Notions the properties are stated with\<close>

text \<open>The rows of the log that belong to a channel, in insertion order.\<close>

definition channelRows :: "db \<Rightarrow> uuid \<Rightarrow> message list" where
  "channelRows d channel = filter (\<lambda>msg. Channel (Metadata msg) = channel) (messages d)"

text \<open>A channel nothing has been received for: no row in the log, no rocket.\<close>

definition freshChannel :: "db \<Rightarrow> uuid \<Rightarrow> bool" where
  "freshChannel d channel = (channelRows d channel = [] \<and> rockets d channel = None)"

text \<open>A message applies when \<open>applyMessage\<close> returns no error for it; this depends on
  the kind and the payload only (lemma \<open>applies_iff\<close>).\<close>

definition applies :: "message \<Rightarrow> bool" where
  "applies msg = (fst (applyMessage (newRocket (Channel (Metadata msg))) msg) = None)"

text \<open>
  The contiguous prefix, in the words of the specification: walk the list from the
  front, keep a message only if its sequence number is the cursor plus one, and stop at
  the first message that is not the expected next one.
\<close>

fun contiguousPrefix :: "go_int \<Rightarrow> message list \<Rightarrow> message list" where
  "contiguousPrefix cursor [] = []"
| "contiguousPrefix cursor (msg # msgs) =
     (if MessageNumber (Metadata msg) = cursor + 1 then msg # contiguousPrefix (cursor + 1) msgs
      else [])"

text \<open>What \<open>Process\<close> makes of a failure inside the fold: its own error.\<close>

definition foldResult :: "error + rocket \<Rightarrow> error + rocket" where
  "foldResult res = (case res of Inl err \<Rightarrow> Inl ProcessMessageError | Inr rocket \<Rightarrow> Inr rocket)"

text \<open>The answer of \<open>FindAfterNumber\<close> when the driver does not fail, and the database
  after a successful \<open>Store\<close>.\<close>

definition pending :: "db \<Rightarrow> uuid \<Rightarrow> go_int \<Rightarrow> message list" where
  "pending d channel cursor =
     sort_key number (filter (\<lambda>msg. sint cursor < number msg) (channelRows d channel))"

definition stored :: "db \<Rightarrow> message \<Rightarrow> db" where
  "stored d m = d\<lparr>messages := messages d @ [m]\<rparr>"

text \<open>Every rocket of the store has a cursor.\<close>

definition cursorsSet :: "db \<Rightarrow> bool" where
  "cursorsSet d = (\<forall>c r. rockets d c = Some r \<longrightarrow> LastMessageNumber r \<noteq> None)"

text \<open>
  The rocket after a list of messages has been applied in order, when each of them
  applies; a list of messages numbered \<open>1, 2, \<dots>, N\<close> in this order; and what the
  store holds for a channel once the messages \<open>arrived\<close>, taken from such a list, have
  been ingested: the rows of the channel are the arrived messages, the other channels are
  untouched, and the rocket, present once message 1 has arrived, is the fold of the
  longest gapless prefix that has arrived.
\<close>

definition applyAll :: "rocket \<Rightarrow> message list \<Rightarrow> rocket" where
  "applyAll rocket msgs = foldl (\<lambda>r msg. snd (applyMessage r msg)) rocket msgs"

definition numbered :: "message list \<Rightarrow> bool" where
  "numbered ms = (map number ms = [1..int (length ms)])"

definition caughtUp :: "uuid \<Rightarrow> message list \<Rightarrow> db \<Rightarrow> message list \<Rightarrow> db \<Rightarrow> bool" where
  "caughtUp c ms d0 arrived d =
     (channelRows d c = arrived \<and> rockets d = (rockets d0)(c := rockets d c) \<and>
      (if ms \<noteq> [] \<and> ms ! 0 \<in> set arrived then
         \<exists>k. 1 \<le> k \<and> k \<le> length ms \<and> (\<forall>i<k. ms ! i \<in> set arrived) \<and>
             (k < length ms \<longrightarrow> ms ! k \<notin> set arrived) \<and>
             rockets d c = Some (applyAll (newRocket c) (take k ms))
       else rockets d c = None))"

definition exMessages :: "message list" where
  "exMessages = [exLaunched 1, exIncreased 2, exDecreased 3]"

definition exArrival :: "message list" where
  "exArrival = [exDecreased 3, exLaunched 1, exIncreased 2]"





text \<open>
  A store in which each rocket sits under its own channel, as the filter of the upsert
  makes it, and the invariant of the applied numbers of a channel: they are strictly
  increasing and none is above the cursor of the stored rocket.
\<close>

definition keyed :: "db \<Rightarrow> bool" where
  "keyed d = (\<forall>c r. rockets d c = Some r \<longrightarrow> RChannel r = c)"

definition tracked :: "uuid \<Rightarrow> db \<Rightarrow> int list \<Rightarrow> bool" where
  "tracked c d T =
     (keyed d \<and> sorted_wrt (<) T \<and>
      (case rockets d c of
         None \<Rightarrow> T = []
       | Some r \<Rightarrow> \<exists>cur. LastMessageNumber r = Some cur \<and> (\<forall>n \<in> set T. n \<le> sint cur)))"

text \<open>Databases and requests for the concrete runs below.\<close>

definition exFindOneFails :: faults where
  "exFindOneFails = noFaults\<lparr>findOneFails := True\<rparr>"


definition exDb1 :: db where
  "exDb1 = \<lparr>messages = [exLaunched 1], rockets = (\<lambda>_. None)(7 := Some exRocket)\<rparr>"

definition exDb2 :: db where
  "exDb2 = \<lparr>messages = [exLaunched 1, exUnknown 2], rockets = (\<lambda>_. None)(7 := Some exRocket)\<rparr>"

definition exRequests :: "(faults \<times> message) list" where
  "exRequests = [(noFaults, exDecreased 3), (noFaults, exLaunched 1), (noFaults, exIncreased 2)]"



section \<open>Properties of the state transition function\<close>

lemmas ex_defs = mkMessage_def exLaunched_def exIncreased_def exDecreased_def exExploded_def
  exUnknown_def exRocket_def exExplodedRocket_def

lemma toInt_in_range:
  "- (2 ^ 63) \<le> truncToZero x \<Longrightarrow> truncToZero x < 2 ^ 63 \<Longrightarrow> toInt x = word_of_int (truncToZero x)"
  by (simp add: toInt_def)

lemma applyMessage_exLaunched: "applyMessage (newRocket 7) (exLaunched 1) = (None, exRocket)"
  by (simp add: applyMessage_def newRocket_def ex_defs toInt_def truncToZero_def)

text \<open>
  C3, as stated, fails: \<open>RocketLaunched\<close> assigns \<open>active\<close> whatever the status was.
  The exploded rocket below receives a launch as message 2 and is active again.
\<close>

theorem explosion_monotonicity_counterexample:
  "Status exExplodedRocket = ''exploded'' \<and>
   fst (applyMessage exExplodedRocket (exLaunched 2)) = None \<and>
   Status (snd (applyMessage exExplodedRocket (exLaunched 2))) = ''active''"
  by (simp add: applyMessage_def Let_def ex_defs)

text \<open>
  C3 (amended): for every rocket whose status is exploded and every message of a kind
  other than \<open>RocketLaunched\<close>, the rocket that \<open>applyMessage\<close> leaves behind is still
  exploded, whether the message applies or not; a \<open>RocketLaunched\<close> message sets the
  status to active.
\<close>

theorem exploded_stays_exploded:
  "(Status r = ''exploded'' \<and> MessageType (Metadata m) \<noteq> ''RocketLaunched''
      \<longrightarrow> Status (snd (applyMessage r m)) = ''exploded'') \<and>
   (MessageType (Metadata m) = ''RocketLaunched''
      \<longrightarrow> Status (snd (applyMessage r m)) = ''active'')"
  by (simp add: applyMessage_def Let_def split: prod.split)

theorem exploded_stays_exploded_witness:
  "Status exExplodedRocket = ''exploded'' \<and>
   MessageType (Metadata (exIncreased 2)) \<noteq> ''RocketLaunched'' \<and>
   Status (snd (applyMessage exExplodedRocket (exIncreased 2))) = ''exploded'' \<and>
   MessageType (Metadata (exLaunched 2)) = ''RocketLaunched'' \<and>
   Status (snd (applyMessage exExplodedRocket (exLaunched 2))) = ''active''"
  using exploded_stays_exploded [of exExplodedRocket "exIncreased 2"]
    exploded_stays_exploded [of exExplodedRocket "exLaunched 2"]
  by (simp add: ex_defs)

text \<open>
  C7: \<open>applyMessage\<close> first writes the message's number and time into the cursor and
  then dispatches on the kind. The rocket it leaves behind carries the message's number
  and time for every message, hence for every message that applies, and also for one
  that does not; a kind outside the five known ones gives the error
  \<open>unknown message type\<close>.
\<close>

theorem cursor_update_precedes_dispatch:
  "LastMessageNumber (snd (applyMessage r m)) = Some (MessageNumber (Metadata m)) \<and>
   LastMessageTime (snd (applyMessage r m)) = Some (MessageTime (Metadata m)) \<and>
   (MessageType (Metadata m) \<notin> set knownKinds \<longrightarrow>
      fst (applyMessage r m) = Some (ErrorsNew ''unknown message type''))"
  by (simp add: applyMessage_def Let_def knownKinds_def split: prod.split)

theorem cursor_update_precedes_dispatch_witness:
  "MessageType (Metadata (exUnknown 2)) \<notin> set knownKinds \<and>
   applyMessage exRocket (exUnknown 2) =
     (Some (ErrorsNew ''unknown message type''),
      exRocket\<lparr>LastMessageNumber := Some 2, LastMessageTime := Some 5000\<rparr>) \<and>
   LastMessageNumber (snd (applyMessage exRocket (exIncreased 2))) = Some 2 \<and>
   LastMessageTime (snd (applyMessage exRocket (exIncreased 2))) = Some 2000"
  using cursor_update_precedes_dispatch [of exRocket "exUnknown 2"]
    cursor_update_precedes_dispatch [of exRocket "exIncreased 2"]
  by (simp add: applyMessage_def Let_def knownKinds_def ex_defs)

text \<open>
  C8: for every rocket and every number \<open>x\<close>, a \<open>RocketSpeedIncreased\<close> by \<open>x\<close>
  followed by a \<open>RocketSpeedDecreased\<close> by \<open>x\<close> both apply and leave the speed as
  it was; in particular when they are the next two messages after the cursor and the
  loop of \<open>Process\<close> applies them.
\<close>

theorem speed_additivity:
  assumes "MessageType (Metadata inc) = ''RocketSpeedIncreased''"
      and "Message inc ''by'' = Some (JNumber x)"
      and "MessageType (Metadata dec) = ''RocketSpeedDecreased''"
      and "Message dec ''by'' = Some (JNumber x)"
  shows "(\<exists>r'. applyEach r [inc, dec] = Inr r' \<and> Speed r' = Speed r) \<and>
         (LastMessageNumber r = Some c \<and> MessageNumber (Metadata inc) = c + 1 \<and>
          MessageNumber (Metadata dec) = c + 2 \<longrightarrow>
            (\<exists>r'. foldMessages r [inc, dec] = Returns (Inr r') \<and> Speed r' = Speed r))"
  using assms by (simp add: applyMessage_def Let_def)

theorem speed_additivity_witness:
  "MessageType (Metadata (exIncreased 2)) = ''RocketSpeedIncreased'' \<and>
   Message (exIncreased 2) ''by'' = Some (JNumber 3000) \<and>
   MessageType (Metadata (exDecreased 3)) = ''RocketSpeedDecreased'' \<and>
   Message (exDecreased 3) ''by'' = Some (JNumber 3000) \<and>
   LastMessageNumber exRocket = Some 1 \<and>
   (\<exists>r'. applyEach exRocket [exIncreased 2, exDecreased 3] = Inr r' \<and> Speed r' = 500) \<and>
   (\<exists>r'. foldMessages exRocket [exIncreased 2, exDecreased 3] = Returns (Inr r') \<and>
         Speed r' = 500)"
proof -
  have h: "MessageType (Metadata (exIncreased 2)) = ''RocketSpeedIncreased''"
    "Message (exIncreased 2) ''by'' = Some (JNumber 3000)"
    "MessageType (Metadata (exDecreased 3)) = ''RocketSpeedDecreased''"
    "Message (exDecreased 3) ''by'' = Some (JNumber 3000)"
    by (simp_all add: ex_defs)
  have c: "LastMessageNumber exRocket = Some 1" "MessageNumber (Metadata (exIncreased 2)) = 1 + 1"
    "MessageNumber (Metadata (exDecreased 3)) = 1 + 2" "Speed exRocket = 500"
    by (simp_all add: ex_defs)
  from speed_additivity [OF h, of exRocket 1] c h show ?thesis by simp
qed

section \<open>Properties of the resequencer\<close>



lemma applyMessage_cursor:
  "LastMessageNumber (snd (applyMessage r m)) = Some (MessageNumber (Metadata m))"
  by (simp add: applyMessage_def Let_def split: prod.split)

lemma applyMessage_channel: "RChannel (snd (applyMessage r m)) = RChannel r"
  by (simp add: applyMessage_def Let_def split: prod.split)

lemma applyMessage_error_indep: "fst (applyMessage r m) = fst (applyMessage r' m)"
  by (simp add: applyMessage_def Let_def split: prod.split)

lemma applies_iff: "applies m \<longleftrightarrow> fst (applyMessage r m) = None"
  unfolding applies_def by (rule arg_cong [where f = "\<lambda>x. x = None"], rule applyMessage_error_indep)

lemma foldMessages_prefix:
  "LastMessageNumber r = Some cur \<Longrightarrow>
   foldMessages r msgs = Returns (foldResult (applyEach r (contiguousPrefix cur msgs)))"
proof (induction msgs arbitrary: r cur)
  case Nil
  then show ?case by (simp add: foldResult_def)
next
  case (Cons m msgs)
  show ?case
  proof (cases "MessageNumber (Metadata m) = cur + 1")
    case False
    with Cons.prems show ?thesis by (simp add: foldResult_def)
  next
    case True
    obtain eo r' where ap: "applyMessage r m = (eo, r')" by (cases "applyMessage r m")
    have cur': "LastMessageNumber r' = Some (cur + 1)"
      using applyMessage_cursor [of r m] ap True by simp
    show ?thesis
    proof (cases eo)
      case None
      with Cons.IH [OF cur'] Cons.prems True ap show ?thesis by simp
    next
      case (Some e)
      with Cons.prems True ap show ?thesis by (simp add: foldResult_def)
    qed
  qed
qed

lemma Process_findOne_swallowed:
  "findOneFails f \<Longrightarrow> MessageNumber (Metadata m) \<noteq> 1 \<Longrightarrow> Process f m d = (Ok, d)"
  by (simp add: Process_def rocketInHand_def FindByChannel_def)

lemma exDb1_eq: "Ingest noFaults (exLaunched 1) emptyDb = (Ok, exDb1)"
  apply (simp add: Ingest_def Store_def Process_def rocketInHand_def buildRocketState_def
      noFaults_def emptyDb_def)
  apply (simp add: ex_defs applyMessage_def newRocket_def toInt_def truncToZero_def Let_def
      FindAfterNumber_def number_def Upsert_def exDb1_def)
  done

text \<open>
  C6 does not hold of the code: message 2 arrives for a channel whose rocket exists and
  \<open>FindOne\<close> fails with a driver error. \<open>Process\<close> logs the error, goes on with the
  nil rocket and returns nil: the call reports success and the rocket is not advanced.
\<close>

theorem read_failure_swallowed:
  "Ingest exFindOneFails (exIncreased 2) exDb1 =
     (Ok, exDb1\<lparr>messages := [exLaunched 1, exIncreased 2]\<rparr>)"
  by (simp add: Ingest_def Store_def Process_def rocketInHand_def FindByChannel_def
      exFindOneFails_def noFaults_def exDb1_def ex_defs)



lemma applyEach_cursor:
  "applyEach r xs = Inr r' \<Longrightarrow> LastMessageNumber r \<noteq> None \<Longrightarrow> LastMessageNumber r' \<noteq> None"
proof (induction xs arbitrary: r)
  case Nil
  then show ?case by simp
next
  case (Cons x xs)
  obtain eo r1 where ap: "applyMessage r x = (eo, r1)" by (cases "applyMessage r x")
  have "LastMessageNumber r1 \<noteq> None" using applyMessage_cursor [of r x] ap by simp
  with Cons ap show ?case by (cases eo) auto
qed

lemma applyEach_channel: "applyEach r xs = Inr r' \<Longrightarrow> RChannel r' = RChannel r"
proof (induction xs arbitrary: r)
  case Nil
  then show ?case by simp
next
  case (Cons x xs)
  obtain eo r1 where ap: "applyMessage r x = (eo, r1)" by (cases "applyMessage r x")
  have "RChannel r1 = RChannel r" using applyMessage_channel [of r x] ap by simp
  with Cons ap show ?case by (cases eo) auto
qed

lemma applyEach_fails_iff: "(\<exists>e. applyEach r xs = Inl e) \<longleftrightarrow> \<not> list_all applies xs"
proof (induction xs arbitrary: r)
  case Nil
  then show ?case by simp
next
  case (Cons x xs)
  obtain eo r1 where ap: "applyMessage r x = (eo, r1)" by (cases "applyMessage r x")
  have ax: "applies x \<longleftrightarrow> eo = None" using applies_iff [of x r] ap by simp
  show ?case using Cons.IH [of r1] ap ax by (cases eo) auto
qed

lemma foldMessages_written:
  assumes "LastMessageNumber r = Some cur" "foldMessages r msgs = Returns (Inr r')"
  shows "LastMessageNumber r' \<noteq> None \<and> RChannel r' = RChannel r"
proof -
  from assms foldMessages_prefix [OF assms(1), of msgs]
  have "applyEach r (contiguousPrefix cur msgs) = Inr r'"
    by (simp add: foldResult_def split: sum.splits)
  with assms(1) applyEach_cursor applyEach_channel show ?thesis by fastforce
qed

lemma foldMessages_no_panic: "LastMessageNumber r = Some cur \<Longrightarrow> foldMessages r msgs \<noteq> Panics"
  by (simp add: foldMessages_prefix)

lemma rocketInHand_fast:
  "MessageNumber (Metadata m) = 1 \<Longrightarrow>
   rocketInHand f m d =
     (if applies m then Inr (Some (snd (applyMessage (newRocket (Channel (Metadata m))) m)))
      else Inl ProcessMessageError)"
  by (cases "applyMessage (newRocket (Channel (Metadata m))) m")
     (auto simp: rocketInHand_def buildRocketState_def applies_def split: option.splits)

lemma rocketInHand_slow:
  "MessageNumber (Metadata m) \<noteq> 1 \<Longrightarrow>
   rocketInHand f m d =
     (if findOneFails f then Inr None else Inr (rockets d (Channel (Metadata m))))"
  by (auto simp: rocketInHand_def FindByChannel_def split: option.splits)

lemma Process_rockets:
  "rockets (snd (Process f m d)) c = Some r \<Longrightarrow> rockets d c \<noteq> Some r \<Longrightarrow>
   LastMessageNumber r \<noteq> None"
  by (auto simp: Process_def Upsert_def split: sum.splits option.splits outcome.splits
      if_splits dest: foldMessages_written)

lemma Process_no_panic:
  assumes "cursorsSet d"
  shows "fst (Process f m d) \<noteq> Panic"
proof (cases "MessageNumber (Metadata m) = 1")
  case True
  have "LastMessageNumber (snd (applyMessage (newRocket (Channel (Metadata m))) m)) \<noteq> None"
    by (simp add: applyMessage_cursor)
  then show ?thesis
    using True
    by (auto simp: Process_def rocketInHand_fast foldMessages_no_panic
        split: sum.splits option.splits outcome.splits prod.splits)
next
  case False
  show ?thesis
  proof (cases "rocketInHand f m d")
    case (Inl e)
    then show ?thesis by (simp add: Process_def)
  next
    case (Inr ro)
    show ?thesis
    proof (cases ro)
      case None
      with Inr show ?thesis by (simp add: Process_def)
    next
      case (Some r)
      with Inr False have "rockets d (Channel (Metadata m)) = Some r"
        by (simp add: rocketInHand_slow split: if_splits)
      with assms obtain cur where cur: "LastMessageNumber r = Some cur"
        unfolding cursorsSet_def by blast
      from foldMessages_no_panic [OF cur] Inr Some cur show ?thesis
        by (simp add: Process_def split: sum.splits option.splits outcome.splits prod.splits)
    qed
  qed
qed

lemma Process_cursorsSet: "cursorsSet d \<Longrightarrow> cursorsSet (snd (Process f m d))"
  unfolding cursorsSet_def using Process_rockets by blast

lemma Ingest_cursorsSet:
  assumes "cursorsSet d"
  shows "fst (Ingest f m d) \<noteq> Panic \<and> cursorsSet (snd (Ingest f m d))"
proof (cases "insertOneFails f")
  case True
  with assms show ?thesis by (simp add: Ingest_def Store_def)
next
  case False
  have "cursorsSet (d\<lparr>messages := messages d @ [m]\<rparr>)" using assms by (simp add: cursorsSet_def)
  with False Process_no_panic Process_cursorsSet show ?thesis
    by (simp add: Ingest_def Store_def)
qed

lemma ingestAll_cursorsSet:
  "cursorsSet d \<Longrightarrow> Panic \<notin> set (fst (ingestAll reqs d)) \<and> cursorsSet (snd (ingestAll reqs d))"
proof (induction reqs arbitrary: d)
  case Nil
  then show ?case by simp
next
  case (Cons a reqs)
  obtain f m where a: "a = (f, m)" by (cases a)
  obtain r d' where i: "Ingest f m d = (r, d')" by (cases "Ingest f m d")
  from Ingest_cursorsSet [OF Cons.prems, of f m] i have "r \<noteq> Panic" "cursorsSet d'" by simp_all
  with Cons.IH [of d'] a i show ?case by (auto split: prod.splits)
qed



lemma FindAfterNumber_pending:
  "\<not> findFails f \<Longrightarrow> FindAfterNumber f d c n = Inr (pending d c n)"
  by (simp add: FindAfterNumber_def pending_def channelRows_def conj_commute)

lemma noFaults_simps [simp]:
  "\<not> insertOneFails noFaults" "\<not> findOneFails noFaults" "\<not> findFails noFaults"
  "\<not> updateOneFails noFaults"
  by (simp_all add: noFaults_def)

lemma Process_with_rocket:
  assumes "rocketInHand f m d = Inr (Some r)" "LastMessageNumber r = Some cur"
    "\<not> findFails f"
  shows "Process f m d =
     (case applyEach r (contiguousPrefix cur (pending d (Channel (Metadata m)) cur)) of
        Inl e \<Rightarrow> (Err ProcessMessageError, d)
      | Inr r' \<Rightarrow>
          if updateOneFails f then (Err ProcessMessageError, d)
          else (Ok, d\<lparr>rockets := (rockets d)(RChannel r' := Some r')\<rparr>))"
  using assms
  by (simp add: Process_def FindAfterNumber_pending foldMessages_prefix foldResult_def
      Upsert_def split: sum.splits)

lemma channelRows_append:
  "channelRows (d\<lparr>messages := messages d @ [m]\<rparr>) c =
     channelRows d c @ (if Channel (Metadata m) = c then [m] else [])"
  by (simp add: channelRows_def)

lemma Ingest_noFaults: "Ingest noFaults m d = Process noFaults m (d\<lparr>messages := messages d @ [m]\<rparr>)"
  by (simp add: Ingest_def Store_def)

lemma number_one: "MessageNumber (Metadata m) = 1 \<Longrightarrow> number m = 1"
  by (simp add: number_def)

lemma freshChannel_emptyDb: "freshChannel emptyDb c"
  by (simp add: freshChannel_def channelRows_def emptyDb_def)


text \<open>
  C5: when a message of the contiguous prefix does not apply (unknown kind or invalid
  payload), \<open>Process\<close> returns \<open>ProcessMessageError\<close> and the database is the one it
  was called with: nothing is written to the rockets. The same holds when the message
  numbered 1 that triggers the rebuild does not apply.
\<close>

theorem failed_fold_writes_nothing:
  "(rocketInHand f m d = Inr (Some r) \<and> LastMessageNumber r = Some cur \<and>
    FindAfterNumber f d (Channel (Metadata m)) cur = Inr msgs \<and>
    \<not> list_all applies (contiguousPrefix cur msgs)
      \<longrightarrow> Process f m d = (Err ProcessMessageError, d)) \<and>
   (MessageNumber (Metadata m) = 1 \<and> \<not> applies m
      \<longrightarrow> Process f m d = (Err ProcessMessageError, d))"
proof (intro conjI impI)
  assume a: "rocketInHand f m d = Inr (Some r) \<and> LastMessageNumber r = Some cur \<and>
    FindAfterNumber f d (Channel (Metadata m)) cur = Inr msgs \<and>
    \<not> list_all applies (contiguousPrefix cur msgs)"
  then obtain e where "applyEach r (contiguousPrefix cur msgs) = Inl e"
    using applyEach_fails_iff [of r "contiguousPrefix cur msgs"] by blast
  with a show "Process f m d = (Err ProcessMessageError, d)"
    by (simp add: Process_def foldMessages_prefix foldResult_def)
next
  assume "MessageNumber (Metadata m) = 1 \<and> \<not> applies m"
  then show "Process f m d = (Err ProcessMessageError, d)"
    by (simp add: Process_def rocketInHand_fast)
qed



lemma stored_simps [simp]:
  "rockets (stored d m) = rockets d" "messages (stored d m) = messages d @ [m]"
  "channelRows (stored d m) c = channelRows d c @ (if Channel (Metadata m) = c then [m] else [])"
  by (simp_all add: stored_def channelRows_def)

lemma channelRows_rockets_update [simp]: "channelRows (d\<lparr>rockets := x\<rparr>) c = channelRows d c"
  by (simp add: channelRows_def)

lemma Ingest_stored: "Ingest noFaults m d = Process noFaults m (stored d m)"
  by (simp add: Ingest_def Store_def stored_def)

lemma Ingest_number_one:
  assumes "MessageNumber (Metadata m) = 1" "applies m" "Channel (Metadata m) = c"
  shows "Ingest noFaults m d =
     (case applyEach (snd (applyMessage (newRocket c) m))
             (contiguousPrefix 1 (pending (stored d m) c 1)) of
        Inl e \<Rightarrow> (Err ProcessMessageError, stored d m)
      | Inr r' \<Rightarrow> (Ok, (stored d m)\<lparr>rockets := (rockets d)(c := Some r')\<rparr>))"
proof -
  let ?r = "snd (applyMessage (newRocket c) m)"
  have hand: "rocketInHand noFaults m (stored d m) = Inr (Some ?r)"
    using assms by (simp add: rocketInHand_fast)
  have cur: "LastMessageNumber ?r = Some 1" using assms by (simp add: applyMessage_cursor)
  have ch: "\<And>r'. applyEach ?r (contiguousPrefix 1 (pending (stored d m) c 1)) = Inr r' \<Longrightarrow>
      RChannel r' = c"
    by (simp add: applyEach_channel applyMessage_channel newRocket_def)
  show ?thesis
    using ch by (simp add: Ingest_stored Process_with_rocket [OF hand cur] assms(3)
        split: sum.splits)
qed

lemma Ingest_number_other:
  assumes "MessageNumber (Metadata m) \<noteq> 1" "Channel (Metadata m) = c"
    "rockets d c = Some r" "LastMessageNumber r = Some cur" "RChannel r = c"
  shows "Ingest noFaults m d =
     (case applyEach r (contiguousPrefix cur (pending (stored d m) c cur)) of
        Inl e \<Rightarrow> (Err ProcessMessageError, stored d m)
      | Inr r' \<Rightarrow> (Ok, (stored d m)\<lparr>rockets := (rockets d)(c := Some r')\<rparr>))"
proof -
  have hand: "rocketInHand noFaults m (stored d m) = Inr (Some r)"
    using assms by (simp add: rocketInHand_slow)
  have ch: "\<And>r'. applyEach r (contiguousPrefix cur (pending (stored d m) c cur)) = Inr r' \<Longrightarrow>
      RChannel r' = c"
    using assms(5) by (simp add: applyEach_channel)
  show ?thesis
    using ch by (simp add: Ingest_stored Process_with_rocket [OF hand assms(4)] assms(2)
        split: sum.splits)
qed

lemma Ingest_no_rocket:
  assumes "MessageNumber (Metadata m) \<noteq> 1" "Channel (Metadata m) = c" "rockets d c = None"
  shows "Ingest noFaults m d = (Ok, stored d m)"
  using assms by (simp add: Ingest_stored Process_def rocketInHand_slow)

lemma Ingest_one_fails:
  assumes "MessageNumber (Metadata m) = 1" "\<not> applies m"
  shows "Ingest noFaults m d = (Err ProcessMessageError, stored d m)"
  using assms by (simp add: Ingest_stored Process_def rocketInHand_fast)

lemma number_three: "MessageNumber (Metadata m) = 3 \<Longrightarrow> number m = 3"
  by (simp add: number_def)

lemma scenario_one_three:
  assumes "freshChannel d c" "Channel (Metadata m1) = c" "Channel (Metadata m3) = c"
    "MessageNumber (Metadata m1) = 1" "MessageNumber (Metadata m3) = 3"
  shows "rockets (snd (ingestAll [(noFaults, m1), (noFaults, m3)] d)) =
           rockets (snd (ingestAll [(noFaults, m1)] d))"
    and "rockets (snd (ingestAll [(noFaults, m3), (noFaults, m1)] d)) =
           rockets (snd (ingestAll [(noFaults, m1)] d))"
proof -
  have rows: "channelRows d c = []" and none: "rockets d c = None"
    using assms(1) by (simp_all add: freshChannel_def)
  have n3: "MessageNumber (Metadata m3) \<noteq> 1" using assms(5) by simp
  let ?r = "snd (applyMessage (newRocket c) m1)"
  have after3: "Ingest noFaults m3 d = (Ok, stored d m3)"
    by (rule Ingest_no_rocket [OF n3 assms(3) none])
  show "rockets (snd (ingestAll [(noFaults, m1), (noFaults, m3)] d)) =
           rockets (snd (ingestAll [(noFaults, m1)] d))"
  proof (cases "applies m1")
    case False
    have "Ingest noFaults m3 (stored d m1) = (Ok, stored (stored d m1) m3)"
      by (rule Ingest_no_rocket [OF n3 assms(3)]) (simp add: none)
    then show ?thesis by (simp add: Ingest_one_fails [OF assms(4) False])
  next
    case True
    have p1: "pending (stored d m1) c 1 = []"
      using assms by (simp add: pending_def rows number_one)
    have i1: "Ingest noFaults m1 d = (Ok, (stored d m1)\<lparr>rockets := (rockets d)(c := Some ?r)\<rparr>)"
      by (simp add: Ingest_number_one [OF assms(4) True assms(2)] p1)
    let ?d1 = "(stored d m1)\<lparr>rockets := (rockets d)(c := Some ?r)\<rparr>"
    have cur: "LastMessageNumber ?r = Some 1" using assms(4) by (simp add: applyMessage_cursor)
    have ch: "RChannel ?r = c" by (simp add: applyMessage_channel newRocket_def)
    have p3: "pending (stored ?d1 m3) c 1 = [m3]"
      using assms by (simp add: pending_def rows number_one number_three)
    have "Ingest noFaults m3 ?d1 = (Ok, (stored ?d1 m3)\<lparr>rockets := (rockets ?d1)(c := Some ?r)\<rparr>)"
      using Ingest_number_other [OF n3 assms(3) _ cur ch, of ?d1] assms(5) by (simp add: p3)
    with i1 show ?thesis by simp
  qed
  show "rockets (snd (ingestAll [(noFaults, m3), (noFaults, m1)] d)) =
           rockets (snd (ingestAll [(noFaults, m1)] d))"
  proof (cases "applies m1")
    case False
    then show ?thesis by (simp add: after3 Ingest_one_fails [OF assms(4) False])
  next
    case True
    have p1: "pending (stored d m1) c 1 = []"
      using assms by (simp add: pending_def rows number_one)
    have p2: "pending (stored (stored d m3) m1) c 1 = [m3]"
      using assms by (simp add: pending_def rows number_one number_three)
    show ?thesis
      using assms(5)
      by (simp add: after3 Ingest_number_one [OF assms(4) True assms(2)] p1 p2)
  qed
qed



lemma toInt_3000: "toInt 3000 = 3000" "toInt 500 = 500"
  by (simp_all add: toInt_def truncToZero_def)

text \<open>
  C2: the loop of \<open>Process\<close> applies exactly the contiguous prefix of the list it is
  given (a message is applied only if its number is the cursor plus one, and nothing
  after the first message that is not the expected one is applied). In particular, on a
  fresh channel, after messages 1 and 3 have been ingested, in either order, the rockets
  are the ones after message 1 alone.
\<close>

theorem no_gap_skip:
  assumes "freshChannel d c" "Channel (Metadata m1) = c" "Channel (Metadata m3) = c"
    "MessageNumber (Metadata m1) = 1" "MessageNumber (Metadata m3) = 3"
  shows "(\<forall>r cur msgs. LastMessageNumber r = Some cur \<longrightarrow>
            foldMessages r msgs = Returns (foldResult (applyEach r (contiguousPrefix cur msgs)))) \<and>
         rockets (snd (ingestAll [(noFaults, m1), (noFaults, m3)] d)) =
           rockets (snd (ingestAll [(noFaults, m1)] d)) \<and>
         rockets (snd (ingestAll [(noFaults, m3), (noFaults, m1)] d)) =
           rockets (snd (ingestAll [(noFaults, m1)] d))"
  using scenario_one_three [OF assms] foldMessages_prefix by blast

theorem no_gap_skip_witness:
  "freshChannel emptyDb 7 \<and> Channel (Metadata (exLaunched 1)) = 7 \<and>
   Channel (Metadata (exDecreased 3)) = 7 \<and>
   MessageNumber (Metadata (exLaunched 1)) = 1 \<and> MessageNumber (Metadata (exDecreased 3)) = 3 \<and>
   rockets (snd (ingestAll [(noFaults, exLaunched 1)] emptyDb)) 7 = Some exRocket \<and>
   rockets (snd (ingestAll [(noFaults, exLaunched 1), (noFaults, exDecreased 3)] emptyDb)) 7 =
     Some exRocket \<and>
   rockets (snd (ingestAll [(noFaults, exDecreased 3), (noFaults, exLaunched 1)] emptyDb)) 7 =
     Some exRocket"
proof -
  have h: "freshChannel emptyDb 7" "Channel (Metadata (exLaunched 1)) = 7"
    "Channel (Metadata (exDecreased 3)) = 7" "MessageNumber (Metadata (exLaunched 1)) = 1"
    "MessageNumber (Metadata (exDecreased 3)) = 3"
    by (simp_all add: freshChannel_emptyDb ex_defs)
  have one: "rockets (snd (ingestAll [(noFaults, exLaunched 1)] emptyDb)) 7 = Some exRocket"
    by (simp add: exDb1_eq exDb1_def)
  from no_gap_skip [OF h] one h show ?thesis by simp
qed






theorem failed_fold_writes_nothing_witness:
  "rocketInHand noFaults (exUnknown 2) exDb2 = Inr (Some exRocket) \<and>
   LastMessageNumber exRocket = Some 1 \<and>
   FindAfterNumber noFaults exDb2 (Channel (Metadata (exUnknown 2))) 1 = Inr [exUnknown 2] \<and>
   \<not> list_all applies (contiguousPrefix 1 [exUnknown 2]) \<and>
   Process noFaults (exUnknown 2) exDb2 = (Err ProcessMessageError, exDb2)"
proof -
  have 1: "rocketInHand noFaults (exUnknown 2) exDb2 = Inr (Some exRocket)"
    by (simp add: rocketInHand_def FindByChannel_def exDb2_def ex_defs)
  have 2: "LastMessageNumber exRocket = Some 1" by (simp add: ex_defs)
  have 3: "FindAfterNumber noFaults exDb2 (Channel (Metadata (exUnknown 2))) 1 = Inr [exUnknown 2]"
    by (simp add: FindAfterNumber_def number_def exDb2_def ex_defs)
  have 4: "\<not> list_all applies (contiguousPrefix 1 [exUnknown 2])"
    by (simp add: applies_def applyMessage_def Let_def ex_defs)
  from failed_fold_writes_nothing [of noFaults "exUnknown 2" exDb2 exRocket 1 "[exUnknown 2]"]
    1 2 3 4 show ?thesis by simp
qed

text \<open>
  C10: a rocket that \<open>Process\<close> writes has a cursor, whatever the database was; so in
  a database that only the resequencer has written, starting from the empty one and
  under any driver failures, every rocket has a cursor and no call panics on the
  dereference of \<open>LastMessageNumber\<close>.
\<close>

theorem persisted_cursor_is_set:
  "(\<forall>c r. rockets (snd (Process f m d)) c = Some r \<and> rockets d c \<noteq> Some r
      \<longrightarrow> LastMessageNumber r \<noteq> None) \<and>
   Panic \<notin> set (fst (ingestAll reqs emptyDb)) \<and>
   (\<forall>c r. rockets (snd (ingestAll reqs emptyDb)) c = Some r \<longrightarrow> LastMessageNumber r \<noteq> None)"
proof -
  have "cursorsSet emptyDb" by (simp add: cursorsSet_def emptyDb_def)
  from ingestAll_cursorsSet [OF this, of reqs] Process_rockets [of f m d]
  show ?thesis unfolding cursorsSet_def by blast
qed

lemma exRequests_run:
  "ingestAll exRequests emptyDb =
     ([Ok, Ok, Ok],
      \<lparr>messages = [exDecreased 3, exLaunched 1, exIncreased 2],
       rockets = (\<lambda>_. None)(7 := Some (exRocket\<lparr>Speed := 500, LastMessageNumber := Some 3,
         LastMessageTime := Some 3000\<rparr>))\<rparr>)"
  apply (simp add: exRequests_def Ingest_def Store_def Process_def rocketInHand_def
      buildRocketState_def FindByChannel_def noFaults_def emptyDb_def)
  apply (simp add: ex_defs applyMessage_def newRocket_def toInt_3000 Let_def
      FindAfterNumber_def number_def Upsert_def)
  done

theorem persisted_cursor_is_set_witness:
  "fst (ingestAll exRequests emptyDb) = [Ok, Ok, Ok] \<and>
   rockets (snd (ingestAll exRequests emptyDb)) 7 =
     Some (exRocket\<lparr>Speed := 500, LastMessageNumber := Some 3, LastMessageTime := Some 3000\<rparr>) \<and>
   Panic \<notin> set (fst (ingestAll exRequests emptyDb)) \<and>
   LastMessageNumber (exRocket\<lparr>Speed := 500, LastMessageNumber := Some 3,
     LastMessageTime := Some 3000\<rparr>) \<noteq> None"
  using persisted_cursor_is_set [of noFaults "exLaunched 1" emptyDb exRequests]
  by (simp add: exRequests_run)

section \<open>Order independence\<close>


lemma MessageNumber_number: "MessageNumber (Metadata m) = word_of_int (number m)"
  by (simp add: number_def)

lemma MessageNumber_succ:
  "number y = number x + 1 \<Longrightarrow> MessageNumber (Metadata y) = MessageNumber (Metadata x) + 1"
  by (simp add: MessageNumber_number)

lemma cursor_succ:
  "number y = sint (cur :: go_int) + 1 \<Longrightarrow> MessageNumber (Metadata y) = cur + 1"
  by (simp add: MessageNumber_number)

lemma number_eq_iff: "number x = number y \<longleftrightarrow> MessageNumber (Metadata x) = MessageNumber (Metadata y)"
  by (auto simp: MessageNumber_number) (simp add: number_def)

lemma numbered_nth: "numbered ms \<Longrightarrow> i < length ms \<Longrightarrow> number (ms ! i) = int i + 1"
proof -
  assume a: "numbered ms" "i < length ms"
  have "number (ms ! i) = map number ms ! i" using a(2) by simp
  also have "\<dots> = [1..int (length ms)] ! i" using a(1) by (simp add: numbered_def)
  also have "\<dots> = 1 + int i" using a(2) by (intro nth_upto) simp
  finally show ?thesis by simp
qed

lemma numbered_distinct: "numbered ms \<Longrightarrow> distinct (map number ms)"
  by (simp add: numbered_def)

lemma numbered_distinct': "numbered ms \<Longrightarrow> distinct ms"
  using numbered_distinct distinct_map by blast

lemma numbered_inj: "numbered ms \<Longrightarrow> inj_on number (set ms)"
  using numbered_distinct distinct_map by blast

lemma applyEach_applyAll: "list_all applies xs \<Longrightarrow> applyEach r xs = Inr (applyAll r xs)"
proof (induction xs arbitrary: r)
  case Nil
  then show ?case by (simp add: applyAll_def)
next
  case (Cons x xs)
  obtain eo r1 where ap: "applyMessage r x = (eo, r1)" by (cases "applyMessage r x")
  have "eo = None" using Cons.prems applies_iff [of x r] ap by simp
  with Cons ap show ?case by (simp add: applyAll_def)
qed

lemma applyAll_append: "applyAll r (xs @ ys) = applyAll (applyAll r xs) ys"
  by (simp add: applyAll_def)

lemma applyAll_channel: "RChannel (applyAll r xs) = RChannel r"
  by (induction xs arbitrary: r) (simp_all add: applyAll_def applyMessage_channel)

lemma applyAll_cursor:
  "xs \<noteq> [] \<Longrightarrow> LastMessageNumber (applyAll r xs) = Some (MessageNumber (Metadata (last xs)))"
  by (induction xs arbitrary: r rule: rev_induct) (simp_all add: applyAll_def applyMessage_cursor)

lemma contiguous_catch_up:
  assumes "numbered ms"
  shows "j \<le> length ms \<Longrightarrow> sint cur = int j \<Longrightarrow> sorted (map number L) \<Longrightarrow>
     distinct (map number L) \<Longrightarrow> set L \<subseteq> set ms \<Longrightarrow> (\<forall>x \<in> set L. int j < number x) \<Longrightarrow>
     \<exists>k. j \<le> k \<and> k \<le> length ms \<and> (\<forall>i. j \<le> i \<and> i < k \<longrightarrow> ms ! i \<in> set L) \<and>
         (k < length ms \<longrightarrow> ms ! k \<notin> set L) \<and>
         contiguousPrefix cur L = drop j (take k ms)"
proof (induction L arbitrary: j cur)
  case Nil
  have "j \<le> j \<and> j \<le> length ms \<and> (\<forall>i. j \<le> i \<and> i < j \<longrightarrow> ms ! i \<in> set []) \<and>
      (j < length ms \<longrightarrow> ms ! j \<notin> set []) \<and> contiguousPrefix cur [] = drop j (take j ms)"
    using Nil by simp
  then show ?case by blast
next
  case (Cons x L)
  from Cons.prems obtain p where p: "p < length ms" "x = ms ! p"
    by (auto simp: in_set_conv_nth)
  have nx: "number x = int p + 1" using numbered_nth [OF assms p(1)] p(2) by simp
  have jp: "j \<le> p" using Cons.prems nx by auto
  have above: "\<forall>y \<in> set L. number x < number y"
    using Cons.prems(3,4) by (auto simp: less_le)
  show ?case
  proof (cases "p = j")
    case True
    have eq: "MessageNumber (Metadata x) = cur + 1"
      using cursor_succ [of x cur] nx True Cons.prems(2) by simp
    have s: "sint (cur + 1) = int (Suc j)"
      using eq nx True by (simp add: number_def)
    have "\<exists>k. Suc j \<le> k \<and> k \<le> length ms \<and> (\<forall>i. Suc j \<le> i \<and> i < k \<longrightarrow> ms ! i \<in> set L) \<and>
         (k < length ms \<longrightarrow> ms ! k \<notin> set L) \<and>
         contiguousPrefix (cur + 1) L = drop (Suc j) (take k ms)"
    proof (rule Cons.IH [OF _ s])
      show "Suc j \<le> length ms" using p(1) True by simp
      show "sorted (map number L)" using Cons.prems(3) by simp
      show "distinct (map number L)" using Cons.prems(4) by simp
      show "set L \<subseteq> set ms" using Cons.prems(5) by simp
      show "\<forall>y\<in>set L. int (Suc j) < number y" using above nx True by (auto simp: add.commute)
    qed
    then obtain k where k: "Suc j \<le> k" "k \<le> length ms"
      "\<forall>i. Suc j \<le> i \<and> i < k \<longrightarrow> ms ! i \<in> set L" "k < length ms \<longrightarrow> ms ! k \<notin> set L"
      "contiguousPrefix (cur + 1) L = drop (Suc j) (take k ms)" by blast
    have "take k ms ! j # drop (Suc j) (take k ms) = drop j (take k ms)"
      using k(1,2) by (intro Cons_nth_drop_Suc) simp
    then have pre: "contiguousPrefix cur (x # L) = drop j (take k ms)"
      using eq k(1,5) p(2) True by simp
    have mem: "\<forall>i. j \<le> i \<and> i < k \<longrightarrow> ms ! i \<in> set (x # L)"
    proof (intro allI impI)
      fix i assume "j \<le> i \<and> i < k"
      then show "ms ! i \<in> set (x # L)" using k(3) p(2) True by (cases "i = j") auto
    qed
    have out: "k < length ms \<longrightarrow> ms ! k \<notin> set (x # L)"
    proof
      assume kl: "k < length ms"
      have "number (ms ! k) \<noteq> number x"
        using numbered_nth [OF assms kl] nx True k(1) by simp
      then show "ms ! k \<notin> set (x # L)" using k(4) kl by auto
    qed
    from k(1,2) pre mem out show ?thesis by (intro exI [of _ k]) simp
  next
    case False
    with jp have lt: "j < p" by simp
    have jl: "j < length ms" using lt p(1) by simp
    have nj: "number (ms ! j) = int j + 1" by (rule numbered_nth [OF assms jl])
    have "MessageNumber (Metadata (ms ! j)) = cur + 1"
      using cursor_succ [of "ms ! j" cur] nj Cons.prems(2) by simp
    moreover have "number x \<noteq> number (ms ! j)" using nx nj lt by simp
    ultimately have ne: "MessageNumber (Metadata x) \<noteq> cur + 1"
      using number_eq_iff [of x "ms ! j"] by simp
    have "\<forall>y \<in> set (x # L). number (ms ! j) < number y"
      using above nx nj lt by auto
    then have out: "ms ! j \<notin> set (x # L)" by blast
    from ne out Cons.prems(1) show ?thesis by (intro exI [of _ j]) auto
  qed
qed


lemma pending_props:
  assumes "channelRows d c = rows" "distinct (map number rows)"
  shows "sorted (map number (pending d c cur))"
    and "distinct (map number (pending d c cur))"
    and "set (pending d c cur) = {x \<in> set rows. sint cur < number x}"
proof -
  let ?F = "filter (\<lambda>msg. sint cur < number msg) rows"
  show "sorted (map number (pending d c cur))" by (simp add: pending_def)
  have "mset (map number (sort_key number ?F)) = mset (map number ?F)" by simp
  moreover have "distinct (map number ?F)" using assms(2) by (simp add: distinct_map_filter)
  ultimately have "distinct (map number (sort_key number ?F))"
    using mset_eq_imp_distinct_iff by blast
  then show "distinct (map number (pending d c cur))" using assms(1) by (simp add: pending_def)
  show "set (pending d c cur) = {x \<in> set rows. sint cur < number x}"
    using assms(1) by (auto simp: pending_def)
qed

lemma applies_sublist:
  "list_all applies ms \<Longrightarrow> list_all applies (drop j (take k ms))"
  by (auto simp: list_all_iff dest: in_set_dropD in_set_takeD)

lemma applyAll_take:
  assumes "j \<le> k"
  shows "applyAll (applyAll r (take j ms)) (drop j (take k ms)) = applyAll r (take k ms)"
proof -
  have "take j ms = take j (take k ms)" using assms by (simp add: min_def)
  then have "take j ms @ drop j (take k ms) = take k ms" by (metis append_take_drop_id)
  then show ?thesis by (metis applyAll_append)
qed

lemma applyAll_take_cursor:
  assumes "numbered ms" "1 \<le> k" "k \<le> length ms"
  shows "\<exists>cur. LastMessageNumber (applyAll r (take k ms)) = Some cur \<and> sint cur = int k"
proof -
  have ne: "take k ms \<noteq> []" using assms by auto
  have "last (take k ms) = take k ms ! (length (take k ms) - 1)"
    by (rule last_conv_nth [OF ne])
  also have "\<dots> = ms ! (k - 1)" using assms by (simp add: min_def)
  finally have "last (take k ms) = ms ! (k - 1)" .
  moreover have "number (ms ! (k - 1)) = int k"
    using numbered_nth [OF assms(1), of "k - 1"] assms by simp
  ultimately show ?thesis
    using applyAll_cursor [OF ne, of r] by (simp add: number_def)
qed


lemma catch_up:
  assumes "numbered ms" "list_all applies ms" "channelRows d c = rows" "distinct rows"
    "set rows \<subseteq> set ms" "1 \<le> j" "j \<le> length ms" "\<forall>i<j. ms ! i \<in> set rows"
    "sint cur = int j"
  shows "\<exists>k. 1 \<le> k \<and> k \<le> length ms \<and> (\<forall>i<k. ms ! i \<in> set rows) \<and>
           (k < length ms \<longrightarrow> ms ! k \<notin> set rows) \<and>
           applyEach (applyAll r0 (take j ms)) (contiguousPrefix cur (pending d c cur)) =
             Inr (applyAll r0 (take k ms))"
proof -
  let ?L = "pending d c cur"
  have "inj_on number (set rows)" using numbered_inj [OF assms(1)] assms(5) inj_on_subset by blast
  with assms(4) have dn: "distinct (map number rows)" by (simp add: distinct_map)
  note pp = pending_props [OF assms(3) dn, of cur]
  have sub: "set ?L \<subseteq> set ms" using pp(3) assms(5) by auto
  have gt: "\<forall>x \<in> set ?L. int j < number x" using pp(3) assms(9) by auto
  from contiguous_catch_up [OF assms(1) assms(7) assms(9) pp(1) pp(2) sub gt]
  obtain k where k: "j \<le> k" "k \<le> length ms" "\<forall>i. j \<le> i \<and> i < k \<longrightarrow> ms ! i \<in> set ?L"
    "k < length ms \<longrightarrow> ms ! k \<notin> set ?L" "contiguousPrefix cur ?L = drop j (take k ms)"
    by blast
  have mem: "\<forall>i<k. ms ! i \<in> set rows"
  proof (intro allI impI)
    fix i assume "i < k"
    show "ms ! i \<in> set rows"
    proof (cases "i < j")
      case True
      with assms(8) show ?thesis by simp
    next
      case False
      with \<open>i < k\<close> k(3) have "ms ! i \<in> set ?L" by simp
      with pp(3) show ?thesis by simp
    qed
  qed
  have out: "k < length ms \<longrightarrow> ms ! k \<notin> set rows"
  proof
    assume kl: "k < length ms"
    have "number (ms ! k) = int k + 1" by (rule numbered_nth [OF assms(1) kl])
    then have "sint cur < number (ms ! k)" using assms(9) k(1) by simp
    with k(4) kl pp(3) show "ms ! k \<notin> set rows" by simp
  qed
  have "applyEach (applyAll r0 (take j ms)) (drop j (take k ms)) =
      Inr (applyAll (applyAll r0 (take j ms)) (drop j (take k ms)))"
    by (rule applyEach_applyAll [OF applies_sublist [OF assms(2)]])
  then have "applyEach (applyAll r0 (take j ms)) (contiguousPrefix cur ?L) =
      Inr (applyAll r0 (take k ms))"
    using k(5) applyAll_take [OF k(1)] by simp
  with mem out k(1,2) assms(6) show ?thesis by (intro exI [of _ k]) simp
qed

lemma caughtUp_step:
  assumes num: "numbered ms" and app: "list_all applies ms"
    and chan: "list_all (\<lambda>m. Channel (Metadata m) = c) ms"
    and inv: "caughtUp c ms d0 pre d"
    and m: "m \<in> set ms" "m \<notin> set pre" and pre: "set pre \<subseteq> set ms" "distinct pre"
  shows "caughtUp c ms d0 (pre @ [m]) (snd (Ingest noFaults m d))"
proof -
  from m(1) obtain p where p: "p < length ms" "m = ms ! p" by (auto simp: in_set_conv_nth)
  have ne: "ms \<noteq> []" using m(1) by auto
  have mc: "Channel (Metadata m) = c" using chan m(1) by (simp add: list_all_iff)
  have am: "applies m" using app m(1) by (simp add: list_all_iff)
  have nm: "number m = int p + 1" using numbered_nth [OF num p(1)] p(2) by simp
  have rows: "channelRows (stored d m) c = pre @ [m]"
    using inv mc by (simp add: caughtUp_def)
  have drows: "distinct (pre @ [m])" using pre(2) m(2) by simp
  have srows: "set (pre @ [m]) \<subseteq> set ms" using pre(1) m(1) by simp
  have rk: "rockets d = (rockets d0)(c := rockets d c)" using inv by (simp add: caughtUp_def)
  have upd: "\<And>r'. (rockets d)(c := Some r') = (rockets d0)(c := Some r')"
  proof -
    fix r'
    have "(rockets d)(c := Some r') = ((rockets d0)(c := rockets d c))(c := Some r')"
      using rk by simp
    then show "(rockets d)(c := Some r') = (rockets d0)(c := Some r')" by simp
  qed
  show ?thesis
  proof (cases "p = 0")
    case True
    have n1: "MessageNumber (Metadata m) = 1"
      using MessageNumber_number [of m] nm True by simp
    have t1: "take 1 ms = [m]" using p True ne by (cases ms) simp_all
    have r1: "snd (applyMessage (newRocket c) m) = applyAll (newRocket c) (take 1 ms)"
      unfolding t1 by (simp add: applyAll_def)
    have first: "\<forall>i<1. ms ! i \<in> set (pre @ [m])" using p True by simp
    from catch_up [OF num app rows drows srows _ _ first, of 1 "newRocket c"] ne
    obtain k where k: "1 \<le> k" "k \<le> length ms" "\<forall>i<k. ms ! i \<in> set (pre @ [m])"
      "k < length ms \<longrightarrow> ms ! k \<notin> set (pre @ [m])"
      "applyEach (applyAll (newRocket c) (take 1 ms))
         (contiguousPrefix 1 (pending (stored d m) c 1)) =
       Inr (applyAll (newRocket c) (take k ms))"
      by (auto simp: Suc_le_eq)
    have res: "Ingest noFaults m d =
        (Ok, (stored d m)\<lparr>rockets := (rockets d0)(c := Some (applyAll (newRocket c) (take k ms)))\<rparr>)"
      using Ingest_number_one [OF n1 am mc, of d] k(5) r1 upd by simp
    have "ms ! 0 \<in> set (pre @ [m])" using p True by simp
    with k(1-4) ne rows show ?thesis
      unfolding caughtUp_def res by (simp del: set_append) blast
  next
    case False
    have n1: "MessageNumber (Metadata m) \<noteq> 1"
    proof
      assume "MessageNumber (Metadata m) = 1"
      then have "number m = 1" by (rule number_one)
      with nm False show False by simp
    qed
    have m0: "m \<noteq> ms ! 0"
    proof
      assume "m = ms ! 0"
      then have "number m = 1" using numbered_nth [OF num, of 0] ne by simp
      with nm False show False by simp
    qed
    show ?thesis
    proof (cases "ms ! 0 \<in> set pre")
      case False
      then have none: "rockets d c = None" using inv by (simp add: caughtUp_def)
      have res: "Ingest noFaults m d = (Ok, stored d m)"
        by (rule Ingest_no_rocket [OF n1 mc none])
      have "ms ! 0 \<notin> set (pre @ [m])" using False m0 by auto
      with none rk rows show ?thesis unfolding caughtUp_def res by simp
    next
      case True
      with inv ne obtain j where j: "1 \<le> j" "j \<le> length ms" "\<forall>i<j. ms ! i \<in> set pre"
        "rockets d c = Some (applyAll (newRocket c) (take j ms))"
        unfolding caughtUp_def by auto
      let ?r = "applyAll (newRocket c) (take j ms)"
      from applyAll_take_cursor [OF num j(1,2), of "newRocket c"]
      obtain cur where cur: "LastMessageNumber ?r = Some cur" "sint cur = int j" by blast
      have ch: "RChannel ?r = c" by (simp add: applyAll_channel newRocket_def)
      have first: "\<forall>i<j. ms ! i \<in> set (pre @ [m])" using j(3) by simp
      from catch_up [OF num app rows drows srows j(1,2) first cur(2), of "newRocket c"]
      obtain k where k: "1 \<le> k" "k \<le> length ms" "\<forall>i<k. ms ! i \<in> set (pre @ [m])"
        "k < length ms \<longrightarrow> ms ! k \<notin> set (pre @ [m])"
        "applyEach ?r (contiguousPrefix cur (pending (stored d m) c cur)) =
           Inr (applyAll (newRocket c) (take k ms))"
        by blast
      have res: "Ingest noFaults m d =
          (Ok, (stored d m)\<lparr>rockets := (rockets d0)(c := Some (applyAll (newRocket c) (take k ms)))\<rparr>)"
        using Ingest_number_other [OF n1 mc j(4) cur(1) ch] k(5) upd by simp
      have "ms ! 0 \<in> set (pre @ [m])" using True by simp
      with k(1-4) ne rows show ?thesis
        unfolding caughtUp_def res by (simp del: set_append) blast
    qed
  qed
qed


lemma ingestAll_Cons_snd:
  "snd (ingestAll ((f, m) # rest) d) = snd (ingestAll rest (snd (Ingest f m d)))"
  by (simp split: prod.splits)

lemma caughtUp_run:
  assumes "numbered ms" "list_all applies ms" "list_all (\<lambda>m. Channel (Metadata m) = c) ms"
  shows "caughtUp c ms d0 pre d \<Longrightarrow> distinct (pre @ as) \<Longrightarrow> set (pre @ as) \<subseteq> set ms \<Longrightarrow>
     caughtUp c ms d0 (pre @ as) (snd (ingestAll (map (Pair noFaults) as) d))"
proof (induction as arbitrary: pre d)
  case Nil
  then show ?case by simp
next
  case (Cons a as)
  have "caughtUp c ms d0 (pre @ [a]) (snd (Ingest noFaults a d))"
    using Cons.prems by (intro caughtUp_step [OF assms]) auto
  moreover have "distinct ((pre @ [a]) @ as)" "set ((pre @ [a]) @ as) \<subseteq> set ms"
    using Cons.prems by auto
  ultimately have "caughtUp c ms d0 ((pre @ [a]) @ as)
      (snd (ingestAll (map (Pair noFaults) as) (snd (Ingest noFaults a d))))"
    by (rule Cons.IH)
  then show ?case unfolding list.map ingestAll_Cons_snd by simp
qed

lemma resequenced:
  assumes "freshChannel d c" "numbered ms" "list_all (\<lambda>m. Channel (Metadata m) = c) ms"
    "list_all applies ms" "mset arrival = mset ms"
  shows "rockets (snd (ingestAll (map (Pair noFaults) arrival) d)) =
     (if ms = [] then rockets d else (rockets d)(c := Some (applyAll (newRocket c) ms)))"
proof -
  let ?d = "snd (ingestAll (map (Pair noFaults) arrival) d)"
  have start: "caughtUp c ms d [] d"
    using assms(1) by (auto simp: caughtUp_def freshChannel_def)
  have sa: "set arrival = set ms" using assms(5) by (rule mset_eq_setD)
  have da: "distinct arrival"
    using mset_eq_imp_distinct_iff [OF assms(5)] numbered_distinct' [OF assms(2)] by simp
  from caughtUp_run [OF assms(2,4,3) start, of arrival] sa da
  have fin: "caughtUp c ms d arrival ?d" by simp
  show ?thesis
  proof (cases "ms = []")
    case True
    have "rockets ?d = (rockets d)(c := rockets ?d c)"
      using fin unfolding caughtUp_def by (elim conjE)
    moreover have "rockets ?d c = None" using fin True by (simp add: caughtUp_def)
    moreover have "rockets d c = None" using assms(1) by (simp add: freshChannel_def)
    ultimately have "rockets ?d = rockets d" by (metis fun_upd_triv)
    with True show ?thesis by simp
  next
    case False
    then have "ms ! 0 \<in> set arrival" using sa by (simp add: nth_mem)
    with fin False obtain k where k: "k \<le> length ms" "k < length ms \<longrightarrow> ms ! k \<notin> set arrival"
      "rockets ?d c = Some (applyAll (newRocket c) (take k ms))"
      "rockets ?d = (rockets d)(c := rockets ?d c)"
      unfolding caughtUp_def by auto
    have "k = length ms"
    proof (rule ccontr)
      assume "k \<noteq> length ms"
      with k(1) have "k < length ms" by simp
      with k(2) sa show False by (simp add: nth_mem)
    qed
    with k(3,4) False show ?thesis by simp
  qed
qed

text \<open>
  C1 (amended): take a channel nothing has been received for, messages of that channel
  numbered 1 to N each of which applies (known kind, valid payload), and no driver
  failure. Ingesting them one after another in any arrival order leaves the same
  rockets as ingesting them in order: the rocket of the channel is the new rocket with
  messages 1 to N applied in sequence, and the other channels are untouched.
\<close>

theorem order_independence:
  assumes "freshChannel d c" "numbered ms" "list_all (\<lambda>m. Channel (Metadata m) = c) ms"
    "list_all applies ms" "mset arrival = mset ms"
  shows "rockets (snd (ingestAll (map (Pair noFaults) arrival) d)) =
           rockets (snd (ingestAll (map (Pair noFaults) ms) d)) \<and>
         rockets (snd (ingestAll (map (Pair noFaults) arrival) d)) =
           (if ms = [] then rockets d else (rockets d)(c := Some (applyAll (newRocket c) ms)))"
  using resequenced [OF assms] resequenced [OF assms(1-4), of ms] by simp

lemma exMessages_numbered: "numbered exMessages"
proof -
  have "[1..3] = [1, 2, 3::int]" by (simp add: upto.simps)
  then show ?thesis by (simp add: numbered_def exMessages_def number_def ex_defs)
qed

lemma exMessages_hyps:
  "list_all (\<lambda>m. Channel (Metadata m) = 7) exMessages"
  "list_all applies exMessages" "mset exArrival = mset exMessages"
    apply (simp add: exMessages_def ex_defs)
   apply (simp add: exMessages_def applies_def applyMessage_def Let_def ex_defs)
  apply (simp add: exMessages_def exArrival_def)
  done

theorem order_independence_witness:
  "freshChannel emptyDb 7 \<and> numbered exMessages \<and>
   list_all (\<lambda>m. Channel (Metadata m) = 7) exMessages \<and> list_all applies exMessages \<and>
   mset exArrival = mset exMessages \<and>
   rockets (snd (ingestAll (map (Pair noFaults) exArrival) emptyDb)) 7 =
     Some (exRocket\<lparr>Speed := 500, LastMessageNumber := Some 3, LastMessageTime := Some 3000\<rparr>) \<and>
   rockets (snd (ingestAll (map (Pair noFaults) exMessages) emptyDb)) 7 =
     Some (exRocket\<lparr>Speed := 500, LastMessageNumber := Some 3, LastMessageTime := Some 3000\<rparr>)"
proof -
  have run: "map (Pair noFaults) exArrival = exRequests"
    by (simp add: exArrival_def exRequests_def)
  have a: "rockets (snd (ingestAll (map (Pair noFaults) exArrival) emptyDb)) 7 =
     Some (exRocket\<lparr>Speed := 500, LastMessageNumber := Some 3, LastMessageTime := Some 3000\<rparr>)"
    by (simp add: run exRequests_run)
  from order_independence [OF freshChannel_emptyDb exMessages_numbered exMessages_hyps]
  have "rockets (snd (ingestAll (map (Pair noFaults) exMessages) emptyDb)) 7 =
      rockets (snd (ingestAll (map (Pair noFaults) exArrival) emptyDb)) 7" by simp
  with a show ?thesis
    by (simp add: freshChannel_emptyDb exMessages_numbered exMessages_hyps)
qed

text \<open>
  C1, as stated, fails when a message does not apply. Messages 1 (a launch) and 2 (of an
  unknown kind): arriving as 1, 2 they leave the rocket built from message 1; arriving
  as 2, 1 they leave no rocket, because the rebuild triggered by message 1 runs into
  message 2 and returns before the upsert.
\<close>

theorem order_independence_counterexample:
  "freshChannel emptyDb 7 \<and> numbered [exLaunched 1, exUnknown 2] \<and>
   list_all (\<lambda>m. Channel (Metadata m) = 7) [exLaunched 1, exUnknown 2] \<and>
   mset [exUnknown 2, exLaunched 1] = mset [exLaunched 1, exUnknown 2] \<and>
   rockets (snd (ingestAll [(noFaults, exLaunched 1), (noFaults, exUnknown 2)] emptyDb)) 7 =
     Some exRocket \<and>
   rockets (snd (ingestAll [(noFaults, exUnknown 2), (noFaults, exLaunched 1)] emptyDb)) 7 = None"
proof -
  have "[1..2] = [1, 2::int]" by (simp add: upto.simps)
  then have 1: "numbered [exLaunched 1, exUnknown 2]"
    by (simp add: numbered_def number_def ex_defs)
  have 2: "rockets (snd (ingestAll [(noFaults, exLaunched 1), (noFaults, exUnknown 2)] emptyDb)) 7 =
     Some exRocket"
    apply (simp add: exDb1_eq)
    apply (simp add: Ingest_def Store_def Process_def rocketInHand_def FindByChannel_def
        noFaults_def exDb1_def)
    apply (simp add: ex_defs applyMessage_def Let_def FindAfterNumber_def number_def)
    done
  have 3: "rockets (snd (ingestAll [(noFaults, exUnknown 2), (noFaults, exLaunched 1)] emptyDb)) 7 =
     None"
    apply (simp add: Ingest_def Store_def Process_def rocketInHand_def FindByChannel_def
        buildRocketState_def noFaults_def emptyDb_def)
    apply (simp add: ex_defs applyMessage_def newRocket_def toInt_3000 Let_def
        FindAfterNumber_def number_def Upsert_def)
    done
  from 1 2 3 show ?thesis by (simp add: freshChannel_emptyDb ex_defs)
qed

section \<open>Duplicates\<close>




















lemma tracked_messages [simp]: "tracked c (d\<lparr>messages := x\<rparr>) T = tracked c d T"
  by (simp add: tracked_def keyed_def)




lemma applyAll_Nil [simp]: "applyAll r [] = r"
  by (simp add: applyAll_def)





end
